theory Spec2Isabelle
  imports Main "HOL-Library.Sublist"
begin

section \<open>Strings as the source uses them\<close>

text \<open>
  Paths and keys are JavaScript strings; they are modelled as \<open>string\<close>.
  \<open>endsWith\<close> is \<open>String.prototype.endsWith\<close> and \<open>split_str c s\<close> is
  \<open>s.split(c)\<close> for a one-character separator: the pieces between the
  separators, so that a string without separator gives the one-element list of itself.
\<close>

definition endsWith :: "string \<Rightarrow> string \<Rightarrow> bool" where
  "endsWith s suf = (length suf \<le> length s \<and> drop (length s - length suf) s = suf)"

fun split_str :: "char \<Rightarrow> string \<Rightarrow> string list" where
  "split_str c [] = [[]]"
| "split_str c (x # xs) =
     (if x = c then [] # split_str c xs
      else (case split_str c xs of
              [] \<Rightarrow> [[x]]
            | p # ps \<Rightarrow> (x # p) # ps))"

section \<open>The key of a local path\<close>

text \<open>
  \<open>targetKey\<close> of \<open>synchronizeWebsiteTask\<close> (deploy.js, lines 101 to 108); the
  closure variable \<open>trailingSlashes\<close> is its first argument. The source indexes the
  split path at 0; a split is never empty, the empty case is written out as JavaScript's
  \<open>undefined\<close> would not be a string.
\<close>

definition targetKey :: "bool \<Rightarrow> string \<Rightarrow> string" where
  "targetKey trailingSlashes path =
     (if path \<noteq> ''index.html'' \<and> endsWith path ''/index.html'' \<and> \<not> trailingSlashes
      then (case split_str CHR ''/'' path of
              [] \<Rightarrow> path
            | directoryName # _ \<Rightarrow> directoryName)
      else path)"

section \<open>Manifests and change sets\<close>

text \<open>
  File contents (a Node \<open>Buffer\<close>) are byte strings. An entry of the remote manifest is
  the object \<open>{key, md5Hash}\<close> built at lines 130 to 135; an entry of the local manifest
  is \<open>{path, key, md5Hash}\<close> of lines 122 to 126, the same two properties and the
  path. The properties \<open>key\<close> and \<open>md5Hash\<close> are the ones the task names to
  \<open>diff\<close> as \<open>locationProperty\<close> and \<open>contentsHashProperty\<close>.
\<close>

type_synonym bytes = "char list"

record remote_entry =
  key :: string
  md5Hash :: string

record local_entry = remote_entry +
  path :: string

record changes =
  add :: "local_entry list"
  update :: "local_entry list"
  remove :: "remote_entry list"

text \<open>
  Modelled from the spec: the module \<open>./diff\<close> required at line 12 of deploy.js is
  not among the sources; section 4.4 of the specification describes it. Its first step
  builds a mapping from key to entry for each side. \<open>index_by\<close> is that mapping; where
  two entries share a key the later one replaces the earlier one, as an assignment into a
  table does.
\<close>

definition index_by :: "('a \<Rightarrow> string) \<Rightarrow> 'a list \<Rightarrow> (string \<rightharpoonup> 'a)" where
  "index_by f xs = map_of (rev (map (\<lambda>e. (f e, e)) xs))"

text \<open>
  Modelled from the spec: the entries of the mapping of section 4.4, one for each key,
  in the order in which the keys first occur (the specification leaves the order open).
\<close>

definition entries_of :: "('a \<Rightarrow> string) \<Rightarrow> 'a list \<Rightarrow> 'a list" where
  "entries_of f xs = List.map_filter (index_by f xs) (rev (remdups (rev (map f xs))))"

text \<open>
  Modelled from the spec: the test of section 4.4 for an update, the key is present on
  the remote side with a differing hash.
\<close>

definition differs :: "(string \<rightharpoonup> remote_entry) \<Rightarrow> local_entry \<Rightarrow> bool" where
  "differs r e = (case r (key e) of None \<Rightarrow> False | Some t \<Rightarrow> md5Hash t \<noteq> md5Hash e)"

text \<open>
  Modelled from the spec: \<open>diff\<close> of the missing module \<open>./diff\<close>, after section 4.4.
  A local key absent on the remote side is an add, one present with a differing hash an
  update, one present with an equal hash is left out, and a remote key with no local key
  is a remove.
\<close>

definition diff :: "local_entry list \<Rightarrow> remote_entry list \<Rightarrow> changes" where
  "diff source target =
     (let l = index_by key source; r = index_by key target
      in \<lparr> add = filter (\<lambda>e. r (key e) = None) (entries_of key source),
           update = filter (differs r) (entries_of key source),
           remove = filter (\<lambda>t. l (key t) = None) (entries_of key target) \<rparr>)"

section \<open>What the task reads from its context\<close>

text \<open>
  The task reads three settings of \<open>context.config\<close> and calls libraries that are
  not part of the repository's sources; their results are fields of the environment:
  \<open>cacheControl\<close> is the value of \<open>CacheControl.build\<close> (line 115),
  \<open>md5_hex\<close> the hexadecimal MD5 digest of \<open>crypto\<close> (line 120), \<open>getType\<close>
  is \<open>mime.getType\<close>, which answers \<open>null\<close> for an unknown extension, and
  \<open>readFileSync\<close> is \<open>fs.readFileSync\<close>, \<open>None\<close> where it throws.
\<close>

record env =
  domain :: string
  upload_directory :: string
  trailing_slashes :: bool
  cacheControl :: string
  md5_hex :: "bytes \<Rightarrow> string"
  getType :: "string \<Rightarrow> string option"
  readFileSync :: "string \<Rightarrow> bytes option"

text \<open>
  The task catches nothing: an exception of \<open>fs.readFileSync\<close> and a rejection of
  the S3 client leave it as they are. \<open>FsError\<close> carries the path that was read,
  \<open>S3Error\<close> the client's own error value.
\<close>

datatype 'e error = FsError string | S3Error 'e

section \<open>The S3 client\<close>

text \<open>
  \<open>context.s3\<close> is the S3 client. The task calls \<open>listObjectsV2\<close> with the
  bucket name alone and reads \<open>Contents\<close> of the answer, whose elements have a
  \<open>Key\<close> and an \<open>ETag\<close>; \<open>IsTruncated\<close> is the answer's flag that more
  pages follow, which the task never reads. It calls \<open>putObject\<close> with the
  parameters of lines 148 to 155 and of lines 175 to 178; a parameter that a call leaves
  out is \<open>None\<close>. A client is the pair of the two operations over the store's state
  \<open>'s\<close>; either may reject with an error of type \<open>'e\<close>.
\<close>

record object_key =
  Key :: string

record s3_object = object_key +
  ETag :: string

record listing =
  Contents :: "s3_object list"
  IsTruncated :: bool

record put_params = object_key +
  Bucket :: string
  Body :: "bytes option"
  ACL :: "string option"
  CacheControl :: "string option"
  ContentType :: "string option"

record ('s, 'e) s3 =
  listObjectsV2 :: "'s \<Rightarrow> string \<Rightarrow> 'e + listing"
  putObject :: "'s \<Rightarrow> put_params \<Rightarrow> 'e + 's"

section \<open>The two manifests\<close>

definition quoted :: "string \<Rightarrow> string" where
  "quoted h = [CHR 0x22] @ h @ [CHR 0x22]"

text \<open>
  Lines 117 to 127: \<open>paths.map\<close> reads every file and builds its entry; the first
  read that throws ends the task. \<open>paths\<close> is the result of \<open>glob.sync\<close>.
\<close>

definition fullPath :: "env \<Rightarrow> string \<Rightarrow> string" where
  "fullPath cfg p = upload_directory cfg @ ''/'' @ p"

fun source_entries :: "env \<Rightarrow> string list \<Rightarrow> 'e error + local_entry list" where
  "source_entries cfg [] = Inr []"
| "source_entries cfg (p # ps) =
     (case readFileSync cfg (fullPath cfg p) of
        None \<Rightarrow> Inl (FsError (fullPath cfg p))
      | Some content \<Rightarrow>
          (case source_entries cfg ps of
             Inl e \<Rightarrow> Inl e
           | Inr es \<Rightarrow>
               Inr (\<lparr> key = targetKey (trailing_slashes cfg) p,
                      md5Hash = quoted (md5_hex cfg content),
                      path = p \<rparr> # es)))"

text \<open>Lines 129 to 135: one call of \<open>listObjectsV2\<close>, and its \<open>Contents\<close> mapped.\<close>

definition target_entries :: "('s, 'e) s3 \<Rightarrow> 's \<Rightarrow> string \<Rightarrow> 'e error + remote_entry list" where
  "target_entries client s bucket =
     (case listObjectsV2 client s bucket of
        Inl e \<Rightarrow> Inl (S3Error e)
      | Inr response \<Rightarrow>
          Inr (map (\<lambda>object. \<lparr> key = Key object, md5Hash = ETag object \<rparr>)
                 (Contents response)))"

section \<open>Applying the changes\<close>

text \<open>
  The state of a run: the store behind the client, the \<open>putObject\<close> requests issued
  so far, and the values assigned to \<open>task.output\<close> so far, oldest first.
\<close>

record 's run =
  s3_state :: 's
  requests :: "put_params list"
  task_output :: "string list"

definition start :: "'s \<Rightarrow> 's run" where
  "start s = \<lparr> s3_state = s, requests = [], task_output = [] \<rparr>"

text \<open>
  A \<open>for ... of\<close> loop whose body awaits: the result \<open>Some e\<close> is the exception
  that ended the loop, with the state it was thrown in.
\<close>

fun for_of :: "('a \<Rightarrow> 'st \<Rightarrow> 'x option \<times> 'st) \<Rightarrow> 'a list \<Rightarrow> 'st \<Rightarrow> 'x option \<times> 'st" where
  "for_of body [] st = (None, st)"
| "for_of body (x # xs) st =
     (case body x st of
        (Some e, st') \<Rightarrow> (Some e, st')
      | (None, st') \<Rightarrow> for_of body xs st')"

definition await_putObject :: "('s, 'e) s3 \<Rightarrow> put_params \<Rightarrow> 's run \<Rightarrow> 'e error option \<times> 's run" where
  "await_putObject client params st =
     (let st' = st\<lparr>requests := requests st @ [params]\<rparr>
      in case putObject client (s3_state st) params of
           Inl e \<Rightarrow> (Some (S3Error e), st')
         | Inr s \<Rightarrow> (None, st'\<lparr>s3_state := s\<rparr>))"

definition adding :: "local_entry \<Rightarrow> string" where
  "adding change = ''Adding '' @ path change @ '' as '' @ key change"

definition updating :: "local_entry \<Rightarrow> string" where
  "updating change = ''Updating '' @ path change @ '' as '' @ key change"

definition removing :: "remote_entry \<Rightarrow> string" where
  "removing change = ''Removing '' @ key change"

text \<open>
  The bodies of the loops of lines 144 to 156 and 158 to 170 differ in the status line
  only, which is the argument \<open>line\<close>: the line is assigned, the file is read (the
  read may throw, before any request), and the object is put.
\<close>

definition upload ::
  "env \<Rightarrow> ('s, 'e) s3 \<Rightarrow> (local_entry \<Rightarrow> string) \<Rightarrow> local_entry \<Rightarrow> 's run \<Rightarrow> 'e error option \<times> 's run" where
  "upload cfg client line change st =
     (let st' = st\<lparr>task_output := task_output st @ [line change]\<rparr>
      in case readFileSync cfg (fullPath cfg (path change)) of
           None \<Rightarrow> (Some (FsError (fullPath cfg (path change))), st')
         | Some content \<Rightarrow>
             await_putObject client
               \<lparr> Key = key change,
                 Bucket = domain cfg,
                 Body = Some content,
                 ACL = Some ''public-read'',
                 CacheControl = Some (cacheControl cfg),
                 ContentType = getType cfg (fullPath cfg (path change)) \<rparr> st')"

text \<open>The body of the loop of lines 172 to 179: the request is a \<open>putObject\<close>.\<close>

definition removal ::
  "env \<Rightarrow> ('s, 'e) s3 \<Rightarrow> remote_entry \<Rightarrow> 's run \<Rightarrow> 'e error option \<times> 's run" where
  "removal cfg client change st =
     await_putObject client
       \<lparr> Key = key change,
         Bucket = domain cfg,
         Body = None,
         ACL = None,
         CacheControl = None,
         ContentType = None \<rparr>
       (st\<lparr>task_output := task_output st @ [removing change]\<rparr>)"

definition apply_changes ::
  "env \<Rightarrow> ('s, 'e) s3 \<Rightarrow> changes \<Rightarrow> 's run \<Rightarrow> 'e error option \<times> 's run" where
  "apply_changes cfg client c st =
     (case for_of (upload cfg client adding) (add c) st of
        (Some e, st1) \<Rightarrow> (Some e, st1)
      | (None, st1) \<Rightarrow>
          (case for_of (upload cfg client updating) (update c) st1 of
             (Some e, st2) \<Rightarrow> (Some e, st2)
           | (None, st2) \<Rightarrow> for_of (removal cfg client) (remove c) st2))"

text \<open>
  Lines 110 to 142: the local manifest of the paths that \<open>glob.sync\<close> returned, the
  remote manifest, and their difference.
\<close>

definition changes_of ::
  "env \<Rightarrow> ('s, 'e) s3 \<Rightarrow> string list \<Rightarrow> 's \<Rightarrow> 'e error + changes" where
  "changes_of cfg client paths s =
     (case source_entries cfg paths of
        Inl e \<Rightarrow> Inl e
      | Inr source \<Rightarrow>
          (case target_entries client s (domain cfg) of
             Inl e \<Rightarrow> Inl e
           | Inr target \<Rightarrow> Inr (diff source target)))"

text \<open>The task of lines 96 to 180 on the store \<open>s\<close>.\<close>

definition synchronizeWebsiteTask ::
  "env \<Rightarrow> ('s, 'e) s3 \<Rightarrow> string list \<Rightarrow> 's \<Rightarrow> 'e error option \<times> 's run" where
  "synchronizeWebsiteTask cfg client paths s =
     (case changes_of cfg client paths s of
        Inl e \<Rightarrow> (Some e, start s)
      | Inr c \<Rightarrow> apply_changes cfg client c (start s))"

section \<open>The operations a change set queues\<close>

text \<open>
  The three loops run one after the other, so a change set queues a sequence of steps:
  each has its status line and either the request it issues or, where reading the file
  throws, the path of the file. \<open>perform\<close> runs one step, and \<open>plan\<close> is the
  queue of a change set; \<open>apply_changes_plan\<close> below shows that the loops perform the
  plan in its order.
\<close>

type_synonym step = "string \<times> (string + put_params)"

definition perform :: "('s, 'e) s3 \<Rightarrow> step \<Rightarrow> 's run \<Rightarrow> 'e error option \<times> 's run" where
  "perform client stp st =
     (let st' = st\<lparr>task_output := task_output st @ [fst stp]\<rparr>
      in case snd stp of
           Inl p \<Rightarrow> (Some (FsError p), st')
         | Inr params \<Rightarrow> await_putObject client params st')"

definition upload_step :: "env \<Rightarrow> (local_entry \<Rightarrow> string) \<Rightarrow> local_entry \<Rightarrow> step" where
  "upload_step cfg line change =
     (line change,
      case readFileSync cfg (fullPath cfg (path change)) of
        None \<Rightarrow> Inl (fullPath cfg (path change))
      | Some content \<Rightarrow>
          Inr \<lparr> Key = key change,
                Bucket = domain cfg,
                Body = Some content,
                ACL = Some ''public-read'',
                CacheControl = Some (cacheControl cfg),
                ContentType = getType cfg (fullPath cfg (path change)) \<rparr>)"

definition removal_step :: "env \<Rightarrow> remote_entry \<Rightarrow> step" where
  "removal_step cfg change =
     (removing change,
      Inr \<lparr> Key = key change,
            Bucket = domain cfg,
            Body = None,
            ACL = None,
            CacheControl = None,
            ContentType = None \<rparr>)"

definition plan :: "env \<Rightarrow> changes \<Rightarrow> step list" where
  "plan cfg c =
     map (upload_step cfg adding) (add c)
     @ map (upload_step cfg updating) (update c)
     @ map (removal_step cfg) (remove c)"

definition planned_lines :: "changes \<Rightarrow> string list" where
  "planned_lines c = map adding (add c) @ map updating (update c) @ map removing (remove c)"

definition planned_keys :: "changes \<Rightarrow> string list" where
  "planned_keys c = map key (add c) @ map key (update c) @ map key (remove c)"

text \<open>
  A step is keyed by \<open>k\<close> when the request it issues, if it issues one, is for the
  key \<open>k\<close>.
\<close>

definition keyed :: "step \<Rightarrow> string \<Rightarrow> bool" where
  "keyed stp k = (case snd stp of Inl p \<Rightarrow> True | Inr rq \<Rightarrow> Key rq = k)"


section \<open>The upload directory\<close>











section \<open>A store to run the task against\<close>

text \<open>
  The object store as the task meets it: a bucket is the list of its objects, key and
  content, in the order in which the store lists them. A listing answers with at most
  \<open>max_keys\<close> objects (a page) and tells whether it was cut; the entity tag of an
  object is the quoted digest of its content. \<open>putObject\<close> stores the body under the
  key, replacing what was there, and a request without a body stores the empty object.
  Neither operation fails.
\<close>

type_synonym bucket = "(string \<times> bytes) list"

fun store_object :: "string \<Rightarrow> bytes \<Rightarrow> bucket \<Rightarrow> bucket" where
  "store_object k v [] = [(k, v)]"
| "store_object k v ((k', v') # b) =
     (if k' = k then (k, v) # b else (k', v') # store_object k v b)"

definition s3_store :: "(bytes \<Rightarrow> string) \<Rightarrow> nat \<Rightarrow> (bucket, 'e) s3" where
  "s3_store digest max_keys =
     \<lparr> listObjectsV2 = (\<lambda>b name.
         Inr \<lparr> Contents = map (\<lambda>(k, v). \<lparr> Key = k, ETag = quoted (digest v) \<rparr>) (take max_keys b),
               IsTruncated = (max_keys < length b) \<rparr>),
       putObject = (\<lambda>b params.
         Inr (store_object (Key params) (case Body params of None \<Rightarrow> [] | Some v \<Rightarrow> v) b)) \<rparr>"

section \<open>The site of the end-to-end scenario\<close>

text \<open>
  The inputs of the scenario of section 8 of the specification, for the examples below:
  the build directory holds index.html and about/index.html, the bucket holds index.html
  with the same content and old.html. MD5 itself is not modelled; the examples need some
  function of the content alone in its place and take the content itself, and the
  theorems about arbitrary environments hold for every such function.
\<close>

definition stand_in_digest :: "bytes \<Rightarrow> string" where
  "stand_in_digest content = content"

definition scenario_env :: env where
  "scenario_env =
     \<lparr> domain = ''example.com'',
       upload_directory = ''build'',
       trailing_slashes = False,
       cacheControl = ''max-age=3600'',
       md5_hex = stand_in_digest,
       getType = (\<lambda>p. if endsWith p ''.html'' then Some ''text/html'' else None),
       readFileSync = map_of [(''build/index.html'', ''home''),
                              (''build/about/index.html'', ''about us'')] \<rparr>"

definition scenario_bucket :: bucket where
  "scenario_bucket = [(''index.html'', ''home''), (''old.html'', ''old news'')]"

text \<open>A store whose credentials may list but not write: every \<open>putObject\<close> is rejected.\<close>

definition read_only :: "(bytes \<Rightarrow> string) \<Rightarrow> nat \<Rightarrow> (bucket, string) s3" where
  "read_only digest max_keys =
     \<lparr> listObjectsV2 = listObjectsV2 (s3_store digest max_keys),
       putObject = (\<lambda>b params. Inl ''AccessDenied'') \<rparr>"

text \<open>A store that rejects the requests for one key and serves the others.\<close>

definition denying :: "string \<Rightarrow> (bytes \<Rightarrow> string) \<Rightarrow> nat \<Rightarrow> (bucket, string) s3" where
  "denying k digest max_keys =
     \<lparr> listObjectsV2 = (\<lambda>b name. Inr \<lparr> Contents = map (\<lambda>(k, v). \<lparr> Key = k, ETag = quoted (digest v) \<rparr>) (take max_keys b),
               IsTruncated = (max_keys < length b) \<rparr>),
       putObject = (\<lambda>b params.
         if Key params = k then Inl ''AccessDenied''
         else Inr (store_object (Key params) (case Body params of None \<Rightarrow> [] | Some v \<Rightarrow> v) b)) \<rparr>"

section \<open>Properties of the key mapping\<close>

lemma split_str_not_Nil: "split_str c s \<noteq> []"
  by (induction s) (auto split: list.splits)

lemma split_str_first: "\<exists>ps. split_str c s = takeWhile (\<lambda>x. x \<noteq> c) s # ps"
  by (induction s) auto

lemma targetKey_unchanged:
  "trailingSlashes \<or> \<not> endsWith p ''/index.html'' \<Longrightarrow> targetKey trailingSlashes p = p"
  by (auto simp: targetKey_def)

lemma targetKey_first_segment:
  assumes "endsWith p ''/index.html''"
  shows "targetKey False p = takeWhile (\<lambda>x. x \<noteq> CHR ''/'') p"
proof -
  have "p \<noteq> ''index.html''"
    using assms by (auto simp: endsWith_def)
  moreover obtain ps where "split_str CHR ''/'' p = takeWhile (\<lambda>x. x \<noteq> CHR ''/'') p # ps"
    using split_str_first by blast
  ultimately show ?thesis
    using assms by (simp add: targetKey_def)
qed

lemma targetKey_one_level:
  assumes "CHR ''/'' \<notin> set d"
  shows "targetKey False (d @ ''/index.html'') = d"
proof -
  have "endsWith (d @ ''/index.html'') ''/index.html''"
    by (simp add: endsWith_def)
  then have "targetKey False (d @ ''/index.html'')
      = takeWhile (\<lambda>x. x \<noteq> CHR ''/'') (d @ ''/index.html'')"
    by (rule targetKey_first_segment)
  also have "\<dots> = d"
    using assms by (simp add: takeWhile_append)
  finally show ?thesis .
qed

text \<open>
  Claim C8. The four test vectors of the key mapper: the root index.html is kept,
  blog/index.html becomes blog without trailing slashes and is kept with them, and
  about.html is kept.
\<close>

theorem targetKey_vectors:
  "targetKey False ''index.html'' = ''index.html''
   \<and> targetKey False ''blog/index.html'' = ''blog''
   \<and> targetKey True ''blog/index.html'' = ''blog/index.html''
   \<and> targetKey False ''about.html'' = ''about.html''"
  by (simp add: targetKey_def endsWith_def)

text \<open>
  Claim C2. With trailing slashes the key is the path, and without them an index page
  one directory deep is mapped to its directory (\<open>targetKey_unchanged\<close>,
  \<open>targetKey_one_level\<close>). For a nested path the source takes the first segment of
  the path (\<open>targetKey_first_segment\<close>), not the parent directory: a/b/index.html is
  mapped to a, where the claim says a/b.
\<close>

theorem targetKey_nested_first_segment:
  "targetKey False ''a/b/index.html'' = ''a''
   \<and> targetKey False ''a/b/index.html'' \<noteq> ''a/b''"
  by (simp add: targetKey_def endsWith_def)

section \<open>The difference of two manifests\<close>

lemma index_by_None: "(index_by f xs k = None) = (k \<notin> f ` set xs)"
  by (simp add: index_by_def map_of_eq_None_iff image_image)

lemma index_by_Some: "index_by f xs k = Some e \<Longrightarrow> e \<in> set xs \<and> f e = k"
  by (auto simp: index_by_def dest!: map_of_SomeD)


lemma set_entries_of: "(e \<in> set (entries_of f xs)) = (index_by f xs (f e) = Some e)"
proof
  assume "e \<in> set (entries_of f xs)"
  then obtain k where "index_by f xs k = Some e"
    by (auto simp: entries_of_def map_filter_def)
  then show "index_by f xs (f e) = Some e"
    using index_by_Some by fastforce
next
  assume h: "index_by f xs (f e) = Some e"
  then have "f e \<in> f ` set xs"
    using index_by_None [of f xs "f e"] by auto
  then show "e \<in> set (entries_of f xs)"
    using h by (force simp: entries_of_def map_filter_def)
qed

lemma keys_entries_of: "f ` set (entries_of f xs) = f ` set xs"
proof (rule set_eqI)
  fix k
  show "(k \<in> f ` set (entries_of f xs)) = (k \<in> f ` set xs)"
  proof
    assume "k \<in> f ` set (entries_of f xs)"
    then show "k \<in> f ` set xs"
    proof
      fix e assume "e \<in> set (entries_of f xs)" and k: "k = f e"
      then have "index_by f xs (f e) = Some e" by (simp add: set_entries_of)
      then have "e \<in> set xs" by (simp add: index_by_Some)
      with k show "k \<in> f ` set xs" by simp
    qed
  next
    assume "k \<in> f ` set xs"
    then obtain e where e: "index_by f xs k = Some e"
      using index_by_None [of f xs k] by auto
    then have "f e = k" by (simp add: index_by_Some)
    with e show "k \<in> f ` set (entries_of f xs)"
      by (simp add: set_entries_of image_iff) (rule bexI [of _ e], simp_all add: set_entries_of)
  qed
qed

lemma keys_of_entries_of: "map f (entries_of f xs) = rev (remdups (rev (map f xs)))"
proof -
  let ?ks = "rev (remdups (rev (map f xs)))"
  have in_keys: "k \<in> set ?ks \<Longrightarrow> k \<in> f ` set xs" for k by simp
  have present: "filter (\<lambda>k. index_by f xs k \<noteq> None) ?ks = ?ks"
    by (rule filter_True) (simp add: index_by_None)
  have "map (\<lambda>k. f (the (index_by f xs k))) ?ks = ?ks"
  proof (rule map_idI)
    fix k assume "k \<in> set ?ks"
    then obtain e where "index_by f xs k = Some e"
      using index_by_None [of f xs k] by auto
    then show "f (the (index_by f xs k)) = k"
      using index_by_Some [of f xs k e] by simp
  qed
  moreover have "entries_of f xs = map (the \<circ> index_by f xs) ?ks"
    by (simp only: entries_of_def map_filter_def present)
  ultimately show ?thesis
    by (simp add: comp_def)
qed

lemma distinct_entries_of: "distinct (map f (entries_of f xs))"
  by (simp add: keys_of_entries_of)

lemma diff_add: "(e \<in> set (add (diff source target))) =
    (index_by key source (key e) = Some e \<and> index_by key target (key e) = None)"
  by (simp add: diff_def Let_def set_entries_of)

lemma diff_update: "(e \<in> set (update (diff source target))) =
    (index_by key source (key e) = Some e \<and>
     (\<exists>t. index_by key target (key e) = Some t \<and> md5Hash t \<noteq> md5Hash e))"
  by (simp add: diff_def Let_def set_entries_of differs_def split: option.splits)

lemma diff_remove: "(t \<in> set (remove (diff source target))) =
    (index_by key target (key t) = Some t \<and> index_by key source (key t) = None)"
  by (simp add: diff_def Let_def set_entries_of)

lemma index_by_key: "index_by f xs k = Some e \<Longrightarrow> f e = k"
  by (simp add: index_by_Some)

lemma diff_add_keys: "(k \<in> key ` set (add (diff source target))) =
    (k \<in> key ` set source \<and> k \<notin> key ` set target)"
proof
  assume "k \<in> key ` set (add (diff source target))"
  then obtain e where "index_by key source (key e) = Some e" "index_by key target (key e) = None" "k = key e"
    by (auto simp: diff_add)
  then show "k \<in> key ` set source \<and> k \<notin> key ` set target"
    using index_by_None [of key source k] index_by_None [of key target k] by simp
next
  assume a: "k \<in> key ` set source \<and> k \<notin> key ` set target"
  then obtain e where e: "index_by key source k = Some e"
    using index_by_None [of key source k] by auto
  then have "key e = k" by (rule index_by_key)
  with e a have "e \<in> set (add (diff source target))"
    by (simp add: diff_add index_by_None)
  with \<open>key e = k\<close> show "k \<in> key ` set (add (diff source target))" by force
qed

lemma diff_remove_keys: "(k \<in> key ` set (remove (diff source target))) =
    (k \<in> key ` set target \<and> k \<notin> key ` set source)"
proof
  assume "k \<in> key ` set (remove (diff source target))"
  then obtain e where "index_by key target (key e) = Some e" "index_by key source (key e) = None" "k = key e"
    by (auto simp: diff_remove)
  then show "k \<in> key ` set target \<and> k \<notin> key ` set source"
    using index_by_None [of key source k] index_by_None [of key target k] by simp
next
  assume a: "k \<in> key ` set target \<and> k \<notin> key ` set source"
  then obtain e where e: "index_by key target k = Some e"
    using index_by_None [of key target k] by auto
  then have "key e = k" by (rule index_by_key)
  with e a have "e \<in> set (remove (diff source target))"
    by (simp add: diff_remove index_by_None)
  with \<open>key e = k\<close> show "k \<in> key ` set (remove (diff source target))" by force
qed

lemma diff_update_keys: "(k \<in> key ` set (update (diff source target))) =
    (\<exists>e t. index_by key source k = Some e \<and> index_by key target k = Some t
        \<and> md5Hash t \<noteq> md5Hash e)"
proof
  assume "k \<in> key ` set (update (diff source target))"
  then obtain e where "e \<in> set (update (diff source target))" "k = key e" by auto
  then show "\<exists>e t. index_by key source k = Some e \<and> index_by key target k = Some t
        \<and> md5Hash t \<noteq> md5Hash e"
    by (auto simp: diff_update)
next
  assume "\<exists>e t. index_by key source k = Some e \<and> index_by key target k = Some t
        \<and> md5Hash t \<noteq> md5Hash e"
  then obtain e t where e: "index_by key source k = Some e" "index_by key target k = Some t"
    "md5Hash t \<noteq> md5Hash e" by blast
  then have "key e = k" using index_by_key by fastforce
  with e have "e \<in> set (update (diff source target))"
    by (simp add: diff_update)
  with \<open>key e = k\<close> show "k \<in> key ` set (update (diff source target))" by force
qed

lemma diff_omitted:
  assumes "index_by key source k = Some e" and "index_by key target k = Some t"
    and "md5Hash t = md5Hash e"
  shows "k \<notin> key ` set (add (diff source target))
      \<and> k \<notin> key ` set (update (diff source target))
      \<and> k \<notin> key ` set (remove (diff source target))"
proof -
  have "k \<in> key ` set source" "k \<in> key ` set target"
    using assms index_by_None [of key source k] index_by_None [of key target k] by simp_all
  then have "k \<notin> key ` set (add (diff source target))"
    "k \<notin> key ` set (remove (diff source target))"
    by (simp_all add: diff_add_keys diff_remove_keys)
  moreover have "k \<notin> key ` set (update (diff source target))"
    using assms by (simp add: diff_update_keys)
  ultimately show ?thesis by simp
qed

lemma diff_subsets:
  "set (add (diff source target)) \<subseteq> set source
   \<and> set (update (diff source target)) \<subseteq> set source
   \<and> set (remove (diff source target)) \<subseteq> set target"
proof (intro conjI subsetI)
  fix e assume "e \<in> set (add (diff source target))"
  then have "index_by key source (key e) = Some e" by (simp add: diff_add)
  then show "e \<in> set source" by (simp add: index_by_Some)
next
  fix e assume "e \<in> set (update (diff source target))"
  then have "index_by key source (key e) = Some e" by (simp add: diff_update)
  then show "e \<in> set source" by (simp add: index_by_Some)
next
  fix t assume "t \<in> set (remove (diff source target))"
  then have "index_by key target (key t) = Some t" by (simp add: diff_remove)
  then show "t \<in> set target" by (simp add: index_by_Some)
qed

lemma diff_vectors:
  "diff [\<lparr>key = ''a'', md5Hash = ''h1'', path = ''a''\<rparr>] []
      = \<lparr>add = [\<lparr>key = ''a'', md5Hash = ''h1'', path = ''a''\<rparr>], update = [], remove = []\<rparr>"
  "diff [\<lparr>key = ''a'', md5Hash = ''h1'', path = ''a''\<rparr>] [\<lparr>key = ''a'', md5Hash = ''h1''\<rparr>]
      = \<lparr>add = [], update = [], remove = []\<rparr>"
  "diff [\<lparr>key = ''a'', md5Hash = ''h2'', path = ''a''\<rparr>] [\<lparr>key = ''a'', md5Hash = ''h1''\<rparr>]
      = \<lparr>add = [], update = [\<lparr>key = ''a'', md5Hash = ''h2'', path = ''a''\<rparr>], remove = []\<rparr>"
  "diff [] [\<lparr>key = ''a'', md5Hash = ''h1''\<rparr>]
      = \<lparr>add = [], update = [], remove = [\<lparr>key = ''a'', md5Hash = ''h1''\<rparr>]\<rparr>"
  by (simp_all add: diff_def entries_of_def index_by_def differs_def map_filter_def)

text \<open>
  Claim C4. For every pair of manifests: a key is among the adds exactly when it is a
  local key absent from the remote side, among the updates exactly when both sides hold
  it with differing hashes, among the removes exactly when it is a remote key with no
  local entry; a key that both sides hold with equal hashes is in none of the three
  lists; the lists hold entries of the manifests. The four examples of the
  specification evaluate as it says.
\<close>

theorem diff_classification:
  "(k \<in> key ` set (add (diff source target))) =
      (k \<in> key ` set source \<and> k \<notin> key ` set target)
   \<and> (k \<in> key ` set (update (diff source target))) =
      (\<exists>e t. index_by key source k = Some e \<and> index_by key target k = Some t
          \<and> md5Hash t \<noteq> md5Hash e)
   \<and> (k \<in> key ` set (remove (diff source target))) =
      (k \<in> key ` set target \<and> k \<notin> key ` set source)
   \<and> (index_by key source k = Some e \<and> index_by key target k = Some t
        \<and> md5Hash t = md5Hash e \<longrightarrow>
      k \<notin> key ` set (add (diff source target))
      \<and> k \<notin> key ` set (update (diff source target))
      \<and> k \<notin> key ` set (remove (diff source target)))
   \<and> set (add (diff source target)) \<subseteq> set source
   \<and> set (update (diff source target)) \<subseteq> set source
   \<and> set (remove (diff source target)) \<subseteq> set target
   \<and> diff [\<lparr>key = ''a'', md5Hash = ''h1'', path = ''a''\<rparr>] []
      = \<lparr>add = [\<lparr>key = ''a'', md5Hash = ''h1'', path = ''a''\<rparr>], update = [], remove = []\<rparr>
   \<and> diff [\<lparr>key = ''a'', md5Hash = ''h1'', path = ''a''\<rparr>] [\<lparr>key = ''a'', md5Hash = ''h1''\<rparr>]
      = \<lparr>add = [], update = [], remove = []\<rparr>
   \<and> diff [\<lparr>key = ''a'', md5Hash = ''h2'', path = ''a''\<rparr>] [\<lparr>key = ''a'', md5Hash = ''h1''\<rparr>]
      = \<lparr>add = [], update = [\<lparr>key = ''a'', md5Hash = ''h2'', path = ''a''\<rparr>], remove = []\<rparr>
   \<and> diff [] [\<lparr>key = ''a'', md5Hash = ''h1''\<rparr>]
      = \<lparr>add = [], update = [], remove = [\<lparr>key = ''a'', md5Hash = ''h1''\<rparr>]\<rparr>"
proof (intro conjI impI)
  assume "index_by key source k = Some e \<and> index_by key target k = Some t
        \<and> md5Hash t = md5Hash e"
  then have o: "k \<notin> key ` set (add (diff source target))
      \<and> k \<notin> key ` set (update (diff source target))
      \<and> k \<notin> key ` set (remove (diff source target))"
    using diff_omitted [of source k e target t] by simp
  from o show "k \<notin> key ` set (add (diff source target))" by simp
  from o show "k \<notin> key ` set (update (diff source target))" by simp
  from o show "k \<notin> key ` set (remove (diff source target))" by simp
qed (simp_all only: diff_add_keys diff_update_keys diff_remove_keys diff_subsets diff_vectors)

theorem diff_classification_witness:
  "''a'' \<notin> key ` set (add (diff [\<lparr>key = ''a'', md5Hash = ''h1'', path = ''a''\<rparr>] [\<lparr>key = ''a'', md5Hash = ''h1''\<rparr>]))
   \<and> ''a'' \<notin> key ` set (update (diff [\<lparr>key = ''a'', md5Hash = ''h1'', path = ''a''\<rparr>] [\<lparr>key = ''a'', md5Hash = ''h1''\<rparr>]))
   \<and> ''a'' \<notin> key ` set (remove (diff [\<lparr>key = ''a'', md5Hash = ''h1'', path = ''a''\<rparr>] [\<lparr>key = ''a'', md5Hash = ''h1''\<rparr>]))"
proof -
  have h: "index_by key [\<lparr>key = ''a'', md5Hash = ''h1'', path = ''a''\<rparr>] ''a''
             = Some \<lparr>key = ''a'', md5Hash = ''h1'', path = ''a''\<rparr>
         \<and> index_by key [\<lparr>key = ''a'', md5Hash = ''h1''\<rparr>] ''a'' = Some \<lparr>key = ''a'', md5Hash = ''h1''\<rparr>
         \<and> md5Hash \<lparr>key = ''a'', md5Hash = ''h1''\<rparr> = md5Hash \<lparr>key = ''a'', md5Hash = ''h1'', path = ''a''\<rparr>"
    by (simp add: index_by_def)
  show ?thesis
    using h diff_classification [of "''a''" "[\<lparr>key = ''a'', md5Hash = ''h1'', path = ''a''\<rparr>]"
        "[\<lparr>key = ''a'', md5Hash = ''h1''\<rparr>]" "\<lparr>key = ''a'', md5Hash = ''h1'', path = ''a''\<rparr>"
        "\<lparr>key = ''a'', md5Hash = ''h1''\<rparr>"]
    by blast
qed

section \<open>The loops perform the plan\<close>

lemma for_of_append:
  "for_of body (xs @ ys) st =
     (case for_of body xs st of
        (Some e, st') \<Rightarrow> (Some e, st')
      | (None, st') \<Rightarrow> for_of body ys st')"
  by (induction xs arbitrary: st) (auto split: prod.splits option.splits)

lemma for_of_map: "for_of body (map f xs) st = for_of (\<lambda>x. body (f x)) xs st"
  by (induction xs arbitrary: st) (auto split: prod.splits option.splits)

lemma upload_perform:
  "upload cfg client line = (\<lambda>change. perform client (upload_step cfg line change))"
  by (intro ext) (simp add: upload_def perform_def upload_step_def Let_def split: option.splits)

lemma removal_perform:
  "removal cfg client = (\<lambda>change. perform client (removal_step cfg change))"
  by (intro ext) (simp add: removal_def perform_def removal_step_def Let_def)

lemma apply_changes_plan:
  "apply_changes cfg client c st = for_of (perform client) (plan cfg c) st"
  by (simp only: apply_changes_def plan_def for_of_append for_of_map upload_perform removal_perform)

lemma for_of_abort:
  assumes "for_of body pre st = (None, st1)" and "body x st1 = (Some e, st2)"
  shows "for_of body (pre @ x # post) st = (Some e, st2)"
  using assms by (simp add: for_of_append)

lemma perform_output: "perform client stp st = (r, st') \<Longrightarrow> task_output st' = task_output st @ [fst stp]"
  by (auto simp: perform_def await_putObject_def Let_def split: sum.splits)

lemma for_of_perform_output:
  "for_of (perform client) steps st = (r, st') \<Longrightarrow>
     \<exists>n\<le>length steps. task_output st' = task_output st @ map fst (take n steps)
        \<and> (r = None \<longrightarrow> n = length steps)"
proof (induction steps arbitrary: st)
  case Nil
  then show ?case by simp
next
  case (Cons stp steps)
  obtain r1 st1 where p: "perform client stp st = (r1, st1)" by (cases "perform client stp st")
  then have o1: "task_output st1 = task_output st @ [fst stp]" by (rule perform_output)
  show ?case
  proof (cases r1)
    case None
    with p Cons.prems have "for_of (perform client) steps st1 = (r, st')" by simp
    from Cons.IH [OF this] obtain n where n: "n \<le> length steps"
      "task_output st' = task_output st1 @ map fst (take n steps)" "r = None \<longrightarrow> n = length steps"
      by blast
    show ?thesis
      by (rule exI [of _ "Suc n"]) (use n o1 in simp)
  next
    case (Some e)
    with p Cons.prems have "r = Some e" "st' = st1" by simp_all
    then show ?thesis
      by (intro exI [of _ "Suc 0"]) (use o1 in simp)
  qed
qed

lemma perform_requests:
  "perform client stp st = (r, st') \<Longrightarrow>
     (case snd stp of
        Inl p \<Rightarrow> requests st' = requests st \<and> r = Some (FsError p)
      | Inr rq \<Rightarrow> requests st' = requests st @ [rq] \<and> (r = None \<or> (\<exists>e. r = Some (S3Error e))))"
  by (auto simp: perform_def await_putObject_def Let_def split: sum.splits)

lemma for_of_perform_requests:
  "for_of (perform client) steps st = (r, st') \<Longrightarrow>
     \<exists>m rqs. m \<le> length steps \<and> requests st' = requests st @ rqs
        \<and> map snd (take m steps) = map Inr rqs"
proof (induction steps arbitrary: st)
  case Nil
  then show ?case by simp
next
  case (Cons stp steps)
  obtain r1 st1 where p: "perform client stp st = (r1, st1)" by (cases "perform client stp st")
  note q = perform_requests [OF p]
  show ?case
  proof (cases "snd stp")
    case (Inl pth)
    with q p Cons.prems have "requests st' = requests st" by simp
    then show ?thesis
      by (intro exI [of _ 0] exI [of _ "[]"]) simp
  next
    case (Inr rq)
    with q have q1: "requests st1 = requests st @ [rq]" by simp
    show ?thesis
    proof (cases r1)
      case None
      with p Cons.prems have "for_of (perform client) steps st1 = (r, st')" by simp
      from Cons.IH [OF this] obtain m rqs where m: "m \<le> length steps"
        "requests st' = requests st1 @ rqs" "map snd (take m steps) = map Inr rqs"
        by blast
      show ?thesis
        by (intro exI [of _ "Suc m"] exI [of _ "rq # rqs"]) (use m q1 Inr in simp)
    next
      case (Some e)
      with p Cons.prems have "st' = st1" by simp
      then show ?thesis
        by (intro exI [of _ "Suc 0"] exI [of _ "[rq]"]) (use q1 Inr in simp)
    qed
  qed
qed

lemma upload_step_key: "snd (upload_step cfg line change) = Inr rq \<Longrightarrow> Key rq = key change"
  by (cases "readFileSync cfg (fullPath cfg (path change))") (auto simp: upload_step_def)

lemma removal_step_key: "snd (removal_step cfg change) = Inr rq \<Longrightarrow> Key rq = key change"
  by (auto simp: removal_step_def)

lemma plan_lines: "map fst (plan cfg c) = planned_lines c"
  by (simp add: plan_def planned_lines_def upload_step_def removal_step_def comp_def)

lemma keyed_upload: "keyed (upload_step cfg line change) (key change)"
  by (cases "readFileSync cfg (fullPath cfg (path change))") (simp_all add: upload_step_def keyed_def)

lemma keyed_removal: "keyed (removal_step cfg change) (key change)"
  by (simp add: removal_step_def keyed_def)

lemma plan_keys: "list_all2 keyed (plan cfg c) (planned_keys c)"
  unfolding plan_def planned_keys_def
  by (intro list_all2_appendI)
     (simp_all add: list_all2_map1 list_all2_map2 list_all2_same keyed_upload keyed_removal)

lemma keys_of_requests:
  "list_all2 keyed steps ks \<Longrightarrow> map snd steps = map Inr rqs \<Longrightarrow> map Key rqs = ks"
proof (induction arbitrary: rqs rule: list_all2_induct)
  case Nil
  then show ?case by simp
next
  case (Cons stp steps k ks)
  from Cons.prems obtain rq rqs' where r: "rqs = rq # rqs'" "snd stp = Inr rq"
    "map snd steps = map Inr rqs'"
    by (cases rqs) auto
  from Cons.hyps(1) r(2) have "Key rq = k" by (simp add: keyed_def)
  with Cons.IH [OF r(3)] r(1) show ?case by simp
qed

lemma issued_keys:
  assumes "map snd (take m (plan cfg c)) = map Inr rqs"
  shows "map Key rqs = take m (planned_keys c)"
proof -
  have "list_all2 keyed (take m (plan cfg c)) (take m (planned_keys c))"
    using plan_keys by (rule list_all2_takeI)
  then show ?thesis using assms by (rule keys_of_requests)
qed

section \<open>A site that has not changed\<close>










section \<open>The order of the operations\<close>

lemma distinct_planned_keys: "distinct (planned_keys (diff source target))"
proof -
  let ?d = "diff source target"
  have a: "distinct (map key (add ?d))"
    by (simp add: diff_def Let_def distinct_map_filter distinct_entries_of)
  have u: "distinct (map key (update ?d))"
    by (simp add: diff_def Let_def distinct_map_filter distinct_entries_of)
  have r: "distinct (map key (remove ?d))"
    by (simp add: diff_def Let_def distinct_map_filter distinct_entries_of)
  have au: "k \<in> key ` set (add ?d) \<Longrightarrow> k \<notin> key ` set (update ?d)" for k
    by (auto simp: diff_add_keys diff_update_keys index_by_None [symmetric])
  have ar: "k \<in> key ` set (add ?d) \<Longrightarrow> k \<notin> key ` set (remove ?d)" for k
    by (simp add: diff_add_keys diff_remove_keys)
  have ur: "k \<in> key ` set (update ?d) \<Longrightarrow> k \<notin> key ` set (remove ?d)" for k
    by (auto simp: diff_update_keys diff_remove_keys index_by_None [symmetric])
  have "set (map key (add ?d)) \<inter> set (map key (update ?d)) = {}"
    using au by auto
  moreover have "set (map key (add ?d)) \<inter> set (map key (remove ?d)) = {}"
    using ar by auto
  moreover have "set (map key (update ?d)) \<inter> set (map key (remove ?d)) = {}"
    using ur by auto
  ultimately show ?thesis
    using a u r unfolding planned_keys_def by (simp add: Int_Un_distrib)
qed

lemma trace_of_run:
  assumes "apply_changes cfg client c (start s) = (r, st')"
  shows "prefix (task_output st') (planned_lines c) \<and> prefix (map Key (requests st')) (planned_keys c)"
proof -
  have run: "for_of (perform client) (plan cfg c) (start s) = (r, st')"
    using assms by (simp add: apply_changes_plan)
  from for_of_perform_output [OF run] obtain n where
    "task_output st' = task_output (start s) @ map fst (take n (plan cfg c))" by blast
  then have "task_output st' = take n (planned_lines c)"
    by (simp add: start_def take_map [symmetric] plan_lines)
  then have 1: "prefix (task_output st') (planned_lines c)"
    by (simp add: take_is_prefix)
  from for_of_perform_requests [OF run] obtain m rqs where
    "requests st' = requests (start s) @ rqs" "map snd (take m (plan cfg c)) = map Inr rqs"
    by blast
  then have "map Key (requests st') = take m (planned_keys c)"
    by (simp add: start_def issued_keys)
  then have "prefix (map Key (requests st')) (planned_keys c)"
    by (simp add: take_is_prefix)
  with 1 show ?thesis by simp
qed

text \<open>
  Claim C9. In a run on the difference of two manifests, the status lines assigned and
  the keys of the requests issued are an initial part of the adds, then the updates, then
  the removes, in this order, so no operation of the remove loop comes before one of the
  add or update loops; and the keys of the three lists are pairwise different, so no key
  is acted on in more than one category.
\<close>

theorem one_category_per_key_removals_last:
  "prefix (task_output (snd (apply_changes cfg client (diff source target) (start s))))
      (map adding (add (diff source target)) @ map updating (update (diff source target))
        @ map removing (remove (diff source target)))
   \<and> prefix (map Key (requests (snd (apply_changes cfg client (diff source target) (start s)))))
      (map key (add (diff source target)) @ map key (update (diff source target))
        @ map key (remove (diff source target)))
   \<and> distinct (map key (add (diff source target)) @ map key (update (diff source target))
        @ map key (remove (diff source target)))"
  using trace_of_run [of cfg client "diff source target" s
      "fst (apply_changes cfg client (diff source target) (start s))"
      "snd (apply_changes cfg client (diff source target) (start s))"]
    distinct_planned_keys [of source target]
  by (simp add: planned_lines_def planned_keys_def)

section \<open>The first failure ends the run\<close>

lemma for_of_perform_all:
  "for_of (perform client) steps st = (None, st') \<Longrightarrow>
     task_output st' = task_output st @ map fst steps
     \<and> (\<exists>rqs. requests st' = requests st @ rqs \<and> map snd steps = map Inr rqs)"
proof (induction steps arbitrary: st)
  case Nil
  then show ?case by simp
next
  case (Cons stp steps)
  obtain r1 st1 where p: "perform client stp st = (r1, st1)" by (cases "perform client stp st")
  with Cons.prems have r1: "r1 = None" and rest: "for_of (perform client) steps st1 = (None, st')"
    by (auto split: option.splits)
  from p r1 obtain rq where rq: "snd stp = Inr rq" "requests st1 = requests st @ [rq]"
    using perform_requests [OF p] by (cases "snd stp") auto
  from p have o: "task_output st1 = task_output st @ [fst stp]" by (rule perform_output)
  from Cons.IH [OF rest] obtain rqs where
    "task_output st' = task_output st1 @ map fst steps"
    "requests st' = requests st1 @ rqs" "map snd steps = map Inr rqs" by blast
  with rq o show ?case by simp
qed

lemma plan_line_names_key:
  assumes "stp \<in> set (plan cfg c)" and "snd stp = Inr rq"
  shows "suffix (Key rq) (fst stp)"
proof -
  from assms(1) consider
      (a) change where "stp = upload_step cfg adding change"
    | (u) change where "stp = upload_step cfg updating change"
    | (r) change where "stp = removal_step cfg change"
    by (auto simp: plan_def)
  then show ?thesis
  proof cases
    case a
    with assms(2) have "Key rq = key change" by (simp add: upload_step_key)
    moreover from a have "fst stp = (''Adding '' @ path change @ '' as '') @ key change"
      by (simp add: upload_step_def adding_def)
    ultimately show ?thesis by (simp only: suffixI)
  next
    case u
    with assms(2) have "Key rq = key change" by (simp add: upload_step_key)
    moreover from u have "fst stp = (''Updating '' @ path change @ '' as '') @ key change"
      by (simp add: upload_step_def updating_def)
    ultimately show ?thesis by (simp only: suffixI)
  next
    case r
    with assms(2) have "Key rq = key change" by (simp add: removal_step_key)
    moreover from r have "fst stp = ''Removing '' @ key change"
      by (simp add: removal_step_def removing_def)
    ultimately show ?thesis by (simp only: suffixI)
  qed
qed

text \<open>
  Claim C6, as the code has it. When the operations queued before a step have succeeded
  and the client rejects the request of that step with the error \<open>e\<close>, the run ends
  there: its result is \<open>e\<close> as the client gave it, the requests issued are those of
  the earlier steps and the rejected one, none of the later steps, and the last status
  line is the one of the rejected step, which ends with the key of the request.
\<close>

theorem first_failure_aborts:
  assumes queue: "plan cfg c = pre @ stp # post"
    and before: "for_of (perform client) pre st = (None, st1)"
    and request: "snd stp = Inr rq"
    and rejected: "putObject client (s3_state st1) rq = Inl e"
  shows "\<exists>rqs. apply_changes cfg client c st =
             (Some (S3Error e),
              \<lparr> s3_state = s3_state st1,
                requests = requests st @ rqs @ [rq],
                task_output = task_output st @ map fst pre @ [fst stp] \<rparr>)
           \<and> map snd pre = map Inr rqs
           \<and> suffix (Key rq) (fst stp)"
proof -
  from for_of_perform_all [OF before] obtain rqs where
    st1: "task_output st1 = task_output st @ map fst pre"
      "requests st1 = requests st @ rqs" "map snd pre = map Inr rqs" by blast
  let ?st2 = "\<lparr> s3_state = s3_state st1, requests = requests st @ rqs @ [rq],
                task_output = task_output st @ map fst pre @ [fst stp] \<rparr>"
  have "perform client stp st1 = (Some (S3Error e), ?st2)"
    using request rejected st1 by (simp add: perform_def await_putObject_def Let_def)
  with before have "for_of (perform client) (pre @ stp # post) st = (Some (S3Error e), ?st2)"
    by (rule for_of_abort)
  then have "apply_changes cfg client c st = (Some (S3Error e), ?st2)"
    by (simp add: apply_changes_plan queue)
  moreover have "suffix (Key rq) (fst stp)"
    using queue request by (intro plan_line_names_key [of stp cfg c]) simp_all
  ultimately show ?thesis using st1(3) by blast
qed

lemmas scenario_simps =
  scenario_env_def scenario_bucket_def stand_in_digest_def s3_store_def read_only_def denying_def
  apply_changes_def upload_def removal_def await_putObject_def fullPath_def start_def
  adding_def updating_def removing_def endsWith_def quoted_def Let_def

theorem first_failure_aborts_witness:
  "apply_changes scenario_env (denying ''index.html'' stand_in_digest 1000)
     \<lparr> add = [\<lparr>key = ''about'', md5Hash = ''H2'', path = ''about/index.html''\<rparr>],
       update = [\<lparr>key = ''index.html'', md5Hash = ''H1'', path = ''index.html''\<rparr>],
       remove = [\<lparr>key = ''old.html'', md5Hash = ''H3''\<rparr>] \<rparr>
     (start scenario_bucket)
   = (Some (S3Error ''AccessDenied''),
      \<lparr> s3_state = [(''index.html'', ''home''), (''old.html'', ''old news''), (''about'', ''about us'')],
        requests =
          [\<lparr> Key = ''about'', Bucket = ''example.com'', Body = Some ''about us'',
              ACL = Some ''public-read'', CacheControl = Some ''max-age=3600'',
              ContentType = Some ''text/html'' \<rparr>,
           \<lparr> Key = ''index.html'', Bucket = ''example.com'', Body = Some ''home'',
              ACL = Some ''public-read'', CacheControl = Some ''max-age=3600'',
              ContentType = Some ''text/html'' \<rparr>],
        task_output = [''Adding about/index.html as about'', ''Updating index.html as index.html''] \<rparr>)"
proof -
  let ?about = "\<lparr>key = ''about'', md5Hash = ''H2'', path = ''about/index.html''\<rparr>"
  let ?index = "\<lparr>key = ''index.html'', md5Hash = ''H1'', path = ''index.html''\<rparr>"
  let ?old = "\<lparr>key = ''old.html'', md5Hash = ''H3''\<rparr>"
  let ?c = "\<lparr> add = [?about], update = [?index], remove = [?old] \<rparr>"
  let ?client = "denying ''index.html'' stand_in_digest 1000"
  let ?rq_about = "\<lparr> Key = ''about'', Bucket = ''example.com'', Body = Some ''about us'',
              ACL = Some ''public-read'', CacheControl = Some ''max-age=3600'',
              ContentType = Some ''text/html'' \<rparr>"
  let ?rq = "\<lparr> Key = ''index.html'', Bucket = ''example.com'', Body = Some ''home'',
              ACL = Some ''public-read'', CacheControl = Some ''max-age=3600'',
              ContentType = Some ''text/html'' \<rparr>"
  let ?st1 = "\<lparr> s3_state = [(''index.html'', ''home''), (''old.html'', ''old news''), (''about'', ''about us'')],
        requests = [?rq_about], task_output = [''Adding about/index.html as about''] \<rparr>"
  have queue: "plan scenario_env ?c
      = [upload_step scenario_env adding ?about] @ upload_step scenario_env updating ?index
          # [removal_step scenario_env ?old]"
    by (simp add: plan_def)
  have before: "for_of (perform ?client) [upload_step scenario_env adding ?about] (start scenario_bucket)
      = (None, ?st1)"
    by (simp add: perform_def upload_step_def scenario_simps)
  have request: "snd (upload_step scenario_env updating ?index) = Inr ?rq"
    by (simp add: upload_step_def scenario_simps)
  have rejected: "putObject ?client (s3_state ?st1) ?rq = Inl ''AccessDenied''"
    by (simp add: denying_def)
  from first_failure_aborts [OF queue before request rejected]
  show ?thesis
    by (auto simp: upload_step_def scenario_simps)
qed

text \<open>
  The error that the run reports does not name the entry: against a store that rejects
  every write, a run that fails on the removal of old.html and a run that fails on the
  upload of about report the same value.
\<close>

theorem reported_error_names_no_key:
  "fst (apply_changes scenario_env (read_only stand_in_digest 1000)
          \<lparr> add = [], update = [], remove = [\<lparr>key = ''old.html'', md5Hash = quoted ''old news''\<rparr>] \<rparr>
          (start scenario_bucket))
     = Some (S3Error ''AccessDenied'')
   \<and> fst (apply_changes scenario_env (read_only stand_in_digest 1000)
          \<lparr> add = [\<lparr>key = ''about'', md5Hash = quoted ''about us'', path = ''about/index.html''\<rparr>],
            update = [], remove = [] \<rparr>
          (start scenario_bucket))
     = Some (S3Error ''AccessDenied'')"
  by (simp add: scenario_simps)

section \<open>The end-to-end scenario\<close>

lemma scenario_changes:
  "changes_of scenario_env (s3_store stand_in_digest 1000) [''index.html'', ''about/index.html'']
     scenario_bucket
   = Inr \<lparr> add = [\<lparr>key = ''about'', md5Hash = quoted ''about us'', path = ''about/index.html''\<rparr>],
           update = [],
           remove = [\<lparr>key = ''old.html'', md5Hash = quoted ''old news''\<rparr>] \<rparr>"
  by (simp add: changes_of_def target_entries_def targetKey_def diff_def entries_of_def
      index_by_def differs_def map_filter_def scenario_simps)

text \<open>
  Claim C1. On the change set of the scenario the loop over the removes issues a
  \<open>putObject\<close> without a body for old.html and no deletion: after the run the
  bucket holds index.html, about and still old.html, now empty, where the claim says that
  it holds index.html and about only.
\<close>

theorem removal_puts_an_empty_object:
  "apply_changes scenario_env (s3_store stand_in_digest 1000)
     \<lparr> add = [\<lparr>key = ''about'', md5Hash = quoted ''about us'', path = ''about/index.html''\<rparr>],
       update = [],
       remove = [\<lparr>key = ''old.html'', md5Hash = quoted ''old news''\<rparr>] \<rparr>
     (start scenario_bucket)
   = (None,
      \<lparr> s3_state = [(''index.html'', ''home''), (''old.html'', []), (''about'', ''about us'')],
        requests =
          [\<lparr> Key = ''about'', Bucket = ''example.com'', Body = Some ''about us'',
              ACL = Some ''public-read'', CacheControl = Some ''max-age=3600'',
              ContentType = Some ''text/html'' \<rparr>,
           \<lparr> Key = ''old.html'', Bucket = ''example.com'', Body = None,
              ACL = None, CacheControl = None, ContentType = None \<rparr>],
        task_output = [''Adding about/index.html as about'', ''Removing old.html''] \<rparr>)"
  by (simp add: scenario_simps)

section \<open>The remote manifest\<close>

lemma target_entries_store:
  "target_entries (s3_store digest max_keys) b name
     = Inr (map (\<lambda>(k, v). \<lparr>key = k, md5Hash = quoted (digest v)\<rparr>) (take max_keys b))"
  by (simp add: target_entries_def s3_store_def comp_def case_prod_unfold)

text \<open>
  Claim C3, as the code has it. The remote manifest is built from the answer of one
  listing call: it has one entry, key and entity tag, for each object of the first page
  in the order of the listing, and one entry per object of the bucket when the bucket
  fits in one page.
\<close>

theorem remote_manifest_is_first_page:
  "target_entries (s3_store digest max_keys) b name
     = Inr (map (\<lambda>(k, v). \<lparr>key = k, md5Hash = quoted (digest v)\<rparr>) (take max_keys b))
   \<and> (length b \<le> max_keys \<longrightarrow>
        target_entries (s3_store digest max_keys) b name
          = Inr (map (\<lambda>(k, v). \<lparr>key = k, md5Hash = quoted (digest v)\<rparr>) b))
   \<and> (listObjectsV2 client s name = Inr response \<longrightarrow>
        target_entries client s name
          = Inr (map (\<lambda>object. \<lparr>key = Key object, md5Hash = ETag object\<rparr>) (Contents response)))"
  by (simp add: target_entries_store) (simp add: target_entries_def)

theorem remote_manifest_is_first_page_witness:
  "target_entries (s3_store stand_in_digest 1000 :: (bucket, string) s3) scenario_bucket ''example.com''
     = Inr [\<lparr>key = ''index.html'', md5Hash = quoted ''home''\<rparr>,
            \<lparr>key = ''old.html'', md5Hash = quoted ''old news''\<rparr>]"
proof -
  have small: "length scenario_bucket \<le> 1000" by (simp add: scenario_bucket_def)
  have listed: "listObjectsV2 (s3_store stand_in_digest 1000 :: (bucket, string) s3) scenario_bucket ''example.com''
      = Inr \<lparr> Contents = [\<lparr>Key = ''index.html'', ETag = quoted ''home''\<rparr>,
                          \<lparr>Key = ''old.html'', ETag = quoted ''old news''\<rparr>],
              IsTruncated = False \<rparr>"
    by (simp add: s3_store_def scenario_bucket_def stand_in_digest_def)
  from remote_manifest_is_first_page
    [of stand_in_digest 1000 scenario_bucket "''example.com''"
      "s3_store stand_in_digest 1000 :: (bucket, string) s3" scenario_bucket
      "\<lparr> Contents = [\<lparr>Key = ''index.html'', ETag = quoted ''home''\<rparr>,
                          \<lparr>Key = ''old.html'', ETag = quoted ''old news''\<rparr>],
              IsTruncated = False \<rparr>"] small listed
  have "target_entries (s3_store stand_in_digest 1000 :: (bucket, string) s3) scenario_bucket ''example.com''
      = Inr (map (\<lambda>object. \<lparr>key = Key object, md5Hash = ETag object\<rparr>)
          (Contents \<lparr> Contents = [\<lparr>Key = ''index.html'', ETag = quoted ''home''\<rparr>,
                          \<lparr>Key = ''old.html'', ETag = quoted ''old news''\<rparr>],
              IsTruncated = False \<rparr>))"
    by blast
  then show ?thesis by simp
qed

text \<open>
  A bucket of 1001 objects, listed in pages of 1000: the remote manifest has 1000
  entries.
\<close>

theorem second_page_is_not_listed:
  "(case target_entries (s3_store stand_in_digest 1000 :: (bucket, string) s3)
           (map (\<lambda>n. (replicate (Suc n) CHR ''a'', ''page'')) [0..<1001]) ''example.com'' of
      Inl e \<Rightarrow> 0
    | Inr target \<Rightarrow> length target) = 1000
   \<and> length (map (\<lambda>n. (replicate (Suc n) CHR ''a'', ''page'')) [0..<1001]) = 1001
   \<and> distinct (map fst (map (\<lambda>n. (replicate (Suc n) CHR ''a'', ''page'')) [0..<1001]))"
proof -
  have "inj (\<lambda>n. replicate (Suc n) CHR ''a'')"
    by (rule injI) (metis length_replicate nat.inject)
  then have "distinct (map (\<lambda>n. replicate (Suc n) CHR ''a'') [0..<1001])"
    by (simp add: distinct_map inj_on_def)
  then show ?thesis
    by (simp add: target_entries_store comp_def)
qed

section \<open>What the change set depends on\<close>




section \<open>The local manifest\<close>









end
